theory Spec2Isabelle
  imports Complex_Main "HOL-Library.Multiset" "HOL-Library.Char_ord" "HOL-Library.List_Lexorder"
begin

section \<open>The leaderboard route: \<^verbatim>\<open>src/app/api/leaderboard/route.ts\<close>\<close>

text \<open>
  The handler \<^verbatim>\<open>GET\<close> reads a CSV file, maps every parsed row to a
  \<^verbatim>\<open>LeaderboardEntry\<close>, sorts the entries with a four-key comparator, numbers them and
  answers with JSON. The embedding below follows the handler statement by statement.

  Conventions of the embedding.
  \<^item> A JavaScript string is a \<^typ>\<open>string\<close>; one \<^typ>\<open>char\<close> stands for one character
    of the Latin-1 range, which is all that \<^verbatim>\<open>trim\<close>, \<^verbatim>\<open>toLowerCase\<close> and
    \<^verbatim>\<open>parseInt\<close> can tell apart from "any other character" on these inputs.
  \<^item> A JavaScript number that holds an integer is an \<^typ>\<open>int\<close>; \<^verbatim>\<open>NaN\<close> is
    \<^term>\<open>None\<close>. The model is exact as long as the integers stay inside the range
    in which doubles are exact (magnitude below \<open>2^53\<close>).
  \<^item> A value that may be \<^verbatim>\<open>undefined\<close> is an \<^typ>\<open>'a option\<close>.
  \<^item> A row produced by the CSV parser is an object with string-valued properties: the
    list of its (header label, cell) pairs in column order, a later pair overriding an
    earlier one with the same label.
  \<^item> \<^verbatim>\<open>String.prototype.localeCompare\<close> belongs to the runtime and depends on the
    locale; it is a parameter \<open>lc\<close> of everything that sorts.
\<close>

subsection \<open>Strings and numbers of the runtime\<close>

definition isWhiteSpace :: "char \<Rightarrow> bool" where
  \<comment> \<open>white space and line terminators: TAB, LF, VT, FF, CR, SP, NBSP\<close>
  "isWhiteSpace c = (of_char c \<in> {9, 10, 11, 12, 13, 32, 160 :: nat})"

definition trim :: "string \<Rightarrow> string" where
  "trim s = rev (dropWhile isWhiteSpace (rev (dropWhile isWhiteSpace s)))"

definition toLowerCase_char :: "char \<Rightarrow> char" where
  "toLowerCase_char c =
     (let n = (of_char c :: nat)
      in if (65 \<le> n \<and> n \<le> 90) \<or> (192 \<le> n \<and> n \<le> 222 \<and> n \<noteq> 215)
         then char_of (n + 32) else c)"

definition toLowerCase :: "string \<Rightarrow> string" where
  "toLowerCase s = map toLowerCase_char s"

definition isDigit :: "char \<Rightarrow> bool" where
  "isDigit c = (48 \<le> (of_char c :: nat) \<and> (of_char c :: nat) \<le> 57)"

definition digits_value :: "string \<Rightarrow> nat" where
  "digits_value Z = foldl (\<lambda>acc c. 10 * acc + (of_char c - 48)) 0 Z"

definition ToString :: "string option \<Rightarrow> string" where
  "ToString v = (case v of None \<Rightarrow> ''undefined'' | Some s \<Rightarrow> s)"

definition parseInt :: "string option \<Rightarrow> int option" where
  \<comment> \<open>\<^verbatim>\<open>parseInt(v, 10)\<close>: leading white space, an optional sign, the longest run of
      decimal digits; \<^verbatim>\<open>NaN\<close> when that run is empty\<close>
  "parseInt v =
     (let S = dropWhile isWhiteSpace (ToString v);
          sign = (if S \<noteq> [] \<and> hd S = CHR ''-'' then - 1 else 1);
          S' = (if S \<noteq> [] \<and> (hd S = CHR ''+'' \<or> hd S = CHR ''-'') then tl S else S);
          Z = takeWhile isDigit S'
      in if Z = [] then None else Some (sign * int (digits_value Z)))"

definition num_or :: "int option \<Rightarrow> int \<Rightarrow> int" where
  \<comment> \<open>\<^verbatim>\<open>x || d\<close> on numbers: \<^verbatim>\<open>NaN\<close> and \<^verbatim>\<open>0\<close> are falsy\<close>
  "num_or x d = (case x of None \<Rightarrow> d | Some n \<Rightarrow> if n = 0 then d else n)"

definition str_or :: "string option \<Rightarrow> string \<Rightarrow> string" where
  \<comment> \<open>\<^verbatim>\<open>x || d\<close> on strings: \<^verbatim>\<open>undefined\<close> and the empty string are falsy\<close>
  "str_or x d = (case x of None \<Rightarrow> d | Some s \<Rightarrow> if s = [] then d else s)"

definition Math_round :: "rat \<Rightarrow> int" where
  \<comment> \<open>\<^verbatim>\<open>Math.round\<close>: the nearest integer, a tie going up\<close>
  "Math_round x = \<lfloor>x + 1 / 2\<rfloor>"

fun nat_digits :: "nat \<Rightarrow> string" where
  "nat_digits n =
     (if n < 10 then [char_of (48 + n)] else nat_digits (n div 10) @ [char_of (48 + n mod 10)])"

declare nat_digits.simps [simp del]

definition Number_toString :: "int \<Rightarrow> string" where
  \<comment> \<open>the text a template literal inserts for an integer\<close>
  "Number_toString n = (if n < 0 then CHR ''-'' # nat_digits (nat (- n)) else nat_digits (nat n))"

subsection \<open>Rows and entries\<close>

type_synonym row = "(string \<times> string) list"

definition getprop :: "row \<Rightarrow> string \<Rightarrow> string option" where
  \<comment> \<open>\<^verbatim>\<open>item[key]\<close>\<close>
  "getprop item k = map_of (rev item) k"

record LeaderboardEntry =
  name :: string
  redemptionStatus :: bool
  skillBadges :: int
  arcadePoints :: int
  progress :: int
  skillBadgesStr :: string
  arcadePointsStr :: string
  rank :: "int option"

definition strip_header :: "row list \<Rightarrow> row list" where
  \<comment> \<open>lines 38 to 41: \<^verbatim>\<open>results.shift()\<close> under the test on the first row\<close>
  "strip_header results =
     (if length results > 0 \<and> getprop (hd results) ''User Name'' = Some ''User Name''
      then tl results else results)"

definition process_item :: "row \<Rightarrow> LeaderboardEntry" where
  \<comment> \<open>lines 44 to 64: the callback of \<^verbatim>\<open>results.map\<close>\<close>
  "process_item item =
     (let skillBadges = num_or (parseInt (getprop item ''# of Skill Badges Completed'')) 0;
          arcadePoints = num_or (parseInt (getprop item ''# of Arcade Games Completed'')) 0;
          redemptionStatus =
            (case getprop item ''Access Code Redemption Status'' of
               None \<Rightarrow> False
             | Some s \<Rightarrow> toLowerCase (trim s) = ''yes'');
          total = skillBadges + arcadePoints;
          maxCourses = 20;
          progress = Math_round ((of_int total / maxCourses) * 100);
          progress = min progress 100
      in \<lparr> name = str_or (getprop item ''User Name'') ''Unknown Name'',
           redemptionStatus = redemptionStatus,
           skillBadges = skillBadges,
           arcadePoints = arcadePoints,
           progress = progress,
           skillBadgesStr = Number_toString skillBadges @ ''/19'',
           arcadePointsStr = Number_toString arcadePoints @ ''/1'',
           rank = None \<rparr>)"

subsection \<open>Sorting and ranking\<close>

definition compareEntries :: "(string \<Rightarrow> string \<Rightarrow> int) \<Rightarrow> LeaderboardEntry \<Rightarrow> LeaderboardEntry \<Rightarrow> int" where
  \<comment> \<open>lines 67 to 78: the comparator handed to \<^verbatim>\<open>sort\<close>\<close>
  "compareEntries lc a b =
     (if redemptionStatus a \<noteq> redemptionStatus b then (if redemptionStatus a then - 1 else 1)
      else if skillBadges b \<noteq> skillBadges a then skillBadges b - skillBadges a
      else if arcadePoints b \<noteq> arcadePoints a then arcadePoints b - arcadePoints a
      else lc (str_or (Some (name a)) '''') (str_or (Some (name b)) ''''))"

text \<open>
  \<^verbatim>\<open>Array.prototype.sort\<close> is the runtime's: ECMAScript (2019 and later) requires it to
  be stable and, for a consistent comparator, to deliver the elements in the comparator's
  order. Stable insertion is the executable model: for a consistent comparator the
  stable sorted arrangement of a list is unique (lemma \<open>Array_sort_unique\<close> below), so
  every conforming engine returns the list that \<open>Array_sort\<close> computes.
\<close>

fun insort_cmp :: "('a \<Rightarrow> 'a \<Rightarrow> int) \<Rightarrow> 'a \<Rightarrow> 'a list \<Rightarrow> 'a list" where
  "insort_cmp cmp x [] = [x]"
| "insort_cmp cmp x (y # ys) = (if cmp x y \<le> 0 then x # y # ys else y # insort_cmp cmp x ys)"

definition Array_sort :: "('a \<Rightarrow> 'a \<Rightarrow> int) \<Rightarrow> 'a list \<Rightarrow> 'a list" where
  "Array_sort cmp xs = foldr (insort_cmp cmp) xs []"

definition processedData :: "(string \<Rightarrow> string \<Rightarrow> int) \<Rightarrow> row list \<Rightarrow> LeaderboardEntry list" where
  \<comment> \<open>the array \<^verbatim>\<open>processedData\<close> after line 78\<close>
  "processedData lc results = Array_sort (compareEntries lc) (map process_item (strip_header results))"

definition add_rank :: "LeaderboardEntry list \<Rightarrow> LeaderboardEntry list" where
  \<comment> \<open>lines 81 to 84\<close>
  "add_rank students =
     map (\<lambda>(student, index). student\<lparr>rank := Some (int index + 1)\<rparr>)
         (zip students [0 ..< length students])"

definition rankedData :: "(string \<Rightarrow> string \<Rightarrow> int) \<Rightarrow> row list \<Rightarrow> LeaderboardEntry list" where
  "rankedData lc results = add_rank (processedData lc results)"

subsection \<open>The response\<close>

datatype json = JNull | JBool bool | JNumber int | JString string
  | JArray "json list" | JObject "(string \<times> json) list"

definition entry_json :: "LeaderboardEntry \<Rightarrow> json" where
  \<comment> \<open>an entry as \<^verbatim>\<open>NextResponse.json\<close> writes it: own properties in creation order, an
      \<^verbatim>\<open>undefined\<close> one left out\<close>
  "entry_json e = JObject
     ([(''name'', JString (name e)),
       (''redemptionStatus'', JBool (redemptionStatus e)),
       (''skillBadges'', JNumber (skillBadges e)),
       (''arcadePoints'', JNumber (arcadePoints e)),
       (''progress'', JNumber (progress e)),
       (''skillBadgesStr'', JString (skillBadgesStr e)),
       (''arcadePointsStr'', JString (arcadePointsStr e))]
      @ (case rank e of None \<Rightarrow> [] | Some r \<Rightarrow> [(''rank'', JNumber r)]))"

record response =
  status :: nat
  headers :: "(string \<times> string) list"
  body :: json

record environment =
  filePath :: string  \<comment> \<open>\<^verbatim>\<open>path.join(process.cwd(), 'abc.csv')\<close>\<close>
  existsSync :: bool  \<comment> \<open>\<^verbatim>\<open>fs.existsSync(filePath)\<close>\<close>
  readStream :: "string + row list"
    \<comment> \<open>the piped stream: an \<^verbatim>\<open>error\<close> event with its message, or the rows up to \<^verbatim>\<open>end\<close>\<close>
  statSync_mtime :: "string + string"
    \<comment> \<open>\<^verbatim>\<open>fs.statSync(filePath).mtime.toISOString()\<close>: throws, or the time stamp\<close>

definition cors_headers :: "(string \<times> string) list" where
  "cors_headers =
     [(''Access-Control-Allow-Origin'', ''*''),
      (''Access-Control-Allow-Methods'', ''GET, OPTIONS''),
      (''Access-Control-Allow-Headers'', ''Content-Type'')]"

definition error_response :: "string \<Rightarrow> response" where
  \<comment> \<open>lines 107 to 123: the \<^verbatim>\<open>catch\<close> block\<close>
  "error_response msg =
     \<lparr> status = 500, headers = cors_headers,
       body = JObject [(''success'', JBool False),
                       (''message'', JString ''Error reading leaderboard data.''),
                       (''error'', JString msg)] \<rparr>"

definition success_response :: "string \<Rightarrow> LeaderboardEntry list \<Rightarrow> response" where
  \<comment> \<open>lines 90 to 105\<close>
  "success_response updatedAt ranked =
     \<lparr> status = 200, headers = cors_headers,
       body = JObject [(''success'', JBool True),
                       (''message'', JString ''Leaderboard data fetched successfully.''),
                       (''updatedAt'', JString updatedAt),
                       (''data'', JArray (map entry_json ranked))] \<rparr>"

definition read_csv :: "environment \<Rightarrow> string + row list" where
  \<comment> \<open>lines 25 to 36: the awaited promise; \<^term>\<open>Inl\<close> is a rejection\<close>
  "read_csv env =
     (if \<not> existsSync env then Inl (''CSV file not found at path: '' @ filePath env)
      else readStream env)"

definition GET :: "(string \<Rightarrow> string \<Rightarrow> int) \<Rightarrow> environment \<Rightarrow> response" where
  "GET lc env =
     (case read_csv env of
        Inl msg \<Rightarrow> error_response msg
      | Inr results \<Rightarrow>
          (let ranked = rankedData lc results
           in case statSync_mtime env of
                Inl msg \<Rightarrow> error_response msg
              | Inr updatedAt \<Rightarrow> success_response updatedAt ranked))"

definition OPTIONS :: response where
  "OPTIONS = \<lparr> status = 204, headers = cors_headers, body = JNull \<rparr>"

subsection \<open>Notions of the specification\<close>

text \<open>
  The definitions of this subsection are not taken from the handler. They spell out the
  words of the specification that the handler is compared with.
\<close>

definition in_order :: "(string \<Rightarrow> string \<Rightarrow> int) \<Rightarrow> LeaderboardEntry \<Rightarrow> LeaderboardEntry \<Rightarrow> bool" where
  \<comment> \<open>the sort order as the specification words it: \<open>a\<close> may stand before \<open>b\<close>\<close>
  "in_order lc a b =
     (\<not> (redemptionStatus b \<and> \<not> redemptionStatus a) \<and>
      (redemptionStatus a = redemptionStatus b \<longrightarrow> skillBadges b \<le> skillBadges a) \<and>
      (redemptionStatus a = redemptionStatus b \<and> skillBadges a = skillBadges b
         \<longrightarrow> arcadePoints b \<le> arcadePoints a) \<and>
      (redemptionStatus a = redemptionStatus b \<and> skillBadges a = skillBadges b \<and>
       arcadePoints a = arcadePoints b \<longrightarrow> lc (name a) (name b) \<le> 0))"

fun dense_from :: "('a \<Rightarrow> 'a \<Rightarrow> int) \<Rightarrow> nat \<Rightarrow> 'a \<Rightarrow> 'a list \<Rightarrow> nat list" where
  "dense_from cmp r prev [] = []"
| "dense_from cmp r prev (x # xs) =
     (let r' = (if cmp prev x = 0 then r else r + 1) in r' # dense_from cmp r' x xs)"

fun dense_ranks :: "('a \<Rightarrow> 'a \<Rightarrow> int) \<Rightarrow> 'a list \<Rightarrow> nat list" where
  \<comment> \<open>dense ranking of a sorted list: the first element has rank 1, an element that ties
      with its predecessor shares its rank, any other element has the next rank\<close>
  "dense_ranks cmp [] = []"
| "dense_ranks cmp (x # xs) = 1 # dense_from cmp 1 x xs"

definition repeats_header_labels :: "row \<Rightarrow> bool" where
  \<comment> \<open>a duplicate header row: every cell holds the label of its own column\<close>
  "repeats_header_labels item = (item \<noteq> [] \<and> list_all (\<lambda>(label, cell). cell = label) item)"


definition object_keys :: "json \<Rightarrow> string list" where
  "object_keys j = (case j of JObject kvs \<Rightarrow> map fst kvs | _ \<Rightarrow> [])"

definition response_data :: "json \<Rightarrow> json list" where
  \<comment> \<open>the elements of the \<^verbatim>\<open>data\<close> array of a payload\<close>
  "response_data j =
     (case j of
        JObject kvs \<Rightarrow> (case map_of kvs ''data'' of Some (JArray ds) \<Rightarrow> ds | _ \<Rightarrow> [])
      | _ \<Rightarrow> [])"

subsection \<open>A concrete comparator and concrete rows\<close>

definition codepoint_compare :: "string \<Rightarrow> string \<Rightarrow> int" where
  \<comment> \<open>comparison by character codes, the order \<^verbatim>\<open>localeCompare\<close> has on plain
      lower-case or plain upper-case ASCII names; used to run the handler on examples\<close>
  "codepoint_compare a b = (if a < b then - 1 else if a = b then 0 else 1)"

definition caseless_compare :: "string \<Rightarrow> string \<Rightarrow> int" where
  \<comment> \<open>a comparator under which distinct strings tie, as canonically equivalent
      strings do under \<^verbatim>\<open>localeCompare\<close>\<close>
  "caseless_compare a b = codepoint_compare (toLowerCase a) (toLowerCase b)"

definition row_bob :: row where
  "row_bob = [(''User Name'', ''Bob''), (''Access Code Redemption Status'', '' YES ''),
              (''# of Skill Badges Completed'', ''7''), (''# of Arcade Games Completed'', ''1'')]"

definition row_bob_upper :: row where
  "row_bob_upper = [(''User Name'', ''BOB''), (''Access Code Redemption Status'', ''yes''),
                    (''# of Skill Badges Completed'', ''7''), (''# of Arcade Games Completed'', ''1'')]"

definition row_al :: row where
  "row_al = [(''User Name'', ''Al''), (''Access Code Redemption Status'', ''No''),
             (''# of Skill Badges Completed'', ''12''), (''# of Arcade Games Completed'', ''x'')]"

definition row_cy :: row where
  "row_cy = [(''User Name'', ''Cy''), (''Access Code Redemption Status'', ''yes''),
             (''# of Skill Badges Completed'', ''7''), (''# of Arcade Games Completed'', ''1'')]"

definition row_header :: row where
  "row_header = [(''User Name'', ''User Name''),
                 (''Access Code Redemption Status'', ''Access Code Redemption Status''),
                 (''# of Skill Badges Completed'', ''# of Skill Badges Completed''),
                 (''# of Arcade Games Completed'', ''# of Arcade Games Completed'')]"

definition env_ok :: environment where
  "env_ok = \<lparr> filePath = ''/app/abc.csv'', existsSync = True,
             readStream = Inr [row_header, row_al, row_cy, row_bob],
             statSync_mtime = Inr ''2024-05-01T10:00:00.000Z'' \<rparr>"




section \<open>Properties of the derived fields\<close>

subsection \<open>Auxiliary facts\<close>










subsection \<open>Progress\<close>


subsection \<open>Ranges of the numeric fields\<close>




subsection \<open>Name\<close>

text \<open>
  Claim C10. When the row has no \<^verbatim>\<open>User Name\<close> field, or an empty one, the entry's name
  is \<^verbatim>\<open>Unknown Name\<close>; otherwise it is the field, unchanged.
\<close>

theorem name_default:
  "name (process_item item) =
     (case getprop item ''User Name'' of
        None \<Rightarrow> ''Unknown Name''
      | Some s \<Rightarrow> if s = '''' then ''Unknown Name'' else s)"
  by (simp add: process_item_def Let_def str_or_def)

subsection \<open>Redemption status\<close>

text \<open>
  What \<^verbatim>\<open>trim\<close> and \<^verbatim>\<open>toLowerCase\<close> accept: a string reads \<^verbatim>\<open>yes\<close> after both
  exactly when it is one of the eight spellings of the word in upper and lower case,
  with white space on either side.
\<close>

lemma toLowerCase_char_eq_iff:
  assumes "97 \<le> (of_char t :: nat)" and "(of_char t :: nat) \<le> 122"
    and u: "(of_char u :: nat) + 32 = of_char t"
  shows "toLowerCase_char c = t \<longleftrightarrow> c = t \<or> c = u"
proof
  assume L: "toLowerCase_char c = t"
  let ?n = "of_char c :: nat"
  show "c = t \<or> c = u"
  proof (cases "(65 \<le> ?n \<and> ?n \<le> 90) \<or> (192 \<le> ?n \<and> ?n \<le> 222 \<and> ?n \<noteq> 215)")
    case True
    with L have "char_of (?n + 32) = t" by (simp add: toLowerCase_char_def Let_def)
    then have "(of_char t :: nat) = (?n + 32) mod 256" by (metis of_char_of)
    with True have "(of_char t :: nat) = ?n + 32" by auto
    with u have "?n = of_char u" by simp
    then show ?thesis by (metis char_of_char)
  next
    case False
    with L show ?thesis by (simp add: toLowerCase_char_def Let_def)
  qed
next
  assume "c = t \<or> c = u"
  then show "toLowerCase_char c = t"
  proof
    assume "c = t"
    with assms show ?thesis by (simp add: toLowerCase_char_def Let_def)
  next
    assume c: "c = u"
    from assms have r: "65 \<le> (of_char u :: nat) \<and> (of_char u :: nat) \<le> 90" by linarith
    then have "toLowerCase_char u = char_of (of_char u + 32 :: nat)"
      by (simp add: toLowerCase_char_def Let_def)
    with u c show ?thesis by simp
  qed
qed

lemma lower_y: "toLowerCase_char c = CHR ''y'' \<longleftrightarrow> c = CHR ''y'' \<or> c = CHR ''Y''"
  by (rule toLowerCase_char_eq_iff) simp_all

lemma lower_e: "toLowerCase_char c = CHR ''e'' \<longleftrightarrow> c = CHR ''e'' \<or> c = CHR ''E''"
  by (rule toLowerCase_char_eq_iff) simp_all

lemma lower_s: "toLowerCase_char c = CHR ''s'' \<longleftrightarrow> c = CHR ''s'' \<or> c = CHR ''S''"
  by (rule toLowerCase_char_eq_iff) simp_all

lemma toLowerCase_yes_iff:
  "toLowerCase t = ''yes'' \<longleftrightarrow>
     t \<in> {''yes'', ''yeS'', ''yEs'', ''yES'', ''Yes'', ''YeS'', ''YEs'', ''YES''}"
proof -
  have "toLowerCase t = ''yes'' \<longleftrightarrow>
        (\<exists>a b c. t = [a, b, c] \<and> toLowerCase_char a = CHR ''y'' \<and> toLowerCase_char b = CHR ''e''
           \<and> toLowerCase_char c = CHR ''s'')"
    unfolding toLowerCase_def by (auto simp: map_eq_Cons_conv)
  also have "\<dots> \<longleftrightarrow> t \<in> {''yes'', ''yeS'', ''yEs'', ''yES'', ''Yes'', ''YeS'', ''YEs'', ''YES''}"
    unfolding lower_y lower_e lower_s by auto
  finally show ?thesis .
qed


lemma trim_decomposition:
  "s = takeWhile isWhiteSpace s @ trim s
         @ rev (takeWhile isWhiteSpace (rev (dropWhile isWhiteSpace s)))"
proof -
  let ?r = "rev (dropWhile isWhiteSpace s)"
  have "rev ?r = rev (takeWhile isWhiteSpace ?r @ dropWhile isWhiteSpace ?r)"
    by (simp only: takeWhile_dropWhile_id)
  then have "dropWhile isWhiteSpace s = trim s @ rev (takeWhile isWhiteSpace ?r)"
    by (simp only: rev_rev_ident rev_append trim_def)
  then show ?thesis by (metis takeWhile_dropWhile_id)
qed

lemma trim_padded:
  assumes "t \<noteq> []" and "\<not> isWhiteSpace (hd t)" and "\<not> isWhiteSpace (last t)"
    and "\<forall>c \<in> set pre. isWhiteSpace c" and "\<forall>c \<in> set post. isWhiteSpace c"
  shows "trim (pre @ t @ post) = t"
proof -
  from assms(1,2,4) have "dropWhile isWhiteSpace (pre @ t @ post) = t @ post"
    by (cases t) (simp_all add: dropWhile_append)
  moreover from assms(1,3,5) have "dropWhile isWhiteSpace (rev post @ rev t) = rev t"
    by (cases t rule: rev_cases) (simp_all add: dropWhile_append)
  ultimately show ?thesis by (simp add: trim_def)
qed

lemma yes_iff_padded_spelling:
  "toLowerCase (trim s) = ''yes'' \<longleftrightarrow>
     (\<exists>pre t post. s = pre @ t @ post
        \<and> (\<forall>c \<in> set pre. isWhiteSpace c) \<and> (\<forall>c \<in> set post. isWhiteSpace c)
        \<and> t \<in> {''yes'', ''yeS'', ''yEs'', ''yES'', ''Yes'', ''YeS'', ''YEs'', ''YES''})"
  (is "?L \<longleftrightarrow> ?R")
proof
  assume ?L
  then have "trim s \<in> {''yes'', ''yeS'', ''yEs'', ''yES'', ''Yes'', ''YeS'', ''YEs'', ''YES''}"
    by (simp only: toLowerCase_yes_iff)
  moreover have "\<forall>c \<in> set (takeWhile isWhiteSpace s). isWhiteSpace c"
    by (auto dest: set_takeWhileD)
  moreover have "\<forall>c \<in> set (rev (takeWhile isWhiteSpace (rev (dropWhile isWhiteSpace s)))). isWhiteSpace c"
    by (auto dest: set_takeWhileD)
  ultimately show ?R using trim_decomposition [of s] by blast
next
  assume ?R
  then obtain pre t post where s: "s = pre @ t @ post"
    and ws: "\<forall>c \<in> set pre. isWhiteSpace c" "\<forall>c \<in> set post. isWhiteSpace c"
    and t: "t \<in> {''yes'', ''yeS'', ''yEs'', ''yES'', ''Yes'', ''YeS'', ''YEs'', ''YES''}"
    by blast
  from t have "t \<noteq> [] \<and> \<not> isWhiteSpace (hd t) \<and> \<not> isWhiteSpace (last t)"
    by (auto simp: isWhiteSpace_def)
  with ws have "trim s = t" unfolding s by (intro trim_padded) simp_all
  with t show ?L by (simp only: toLowerCase_yes_iff)
qed



section \<open>The duplicate header row\<close>

lemma getprop_header:
  assumes "repeats_header_labels item" and "k \<in> fst ` set item"
  shows "getprop item k = Some k"
proof -
  from assms(2) obtain v where "map_of (rev item) k = Some v"
    by (cases "map_of (rev item) k") (auto simp: map_of_eq_None_iff)
  moreover from this have "(k, v) \<in> set item" by (auto dest: map_of_SomeD)
  with assms(1) have "v = k" by (auto simp: repeats_header_labels_def list_all_iff)
  ultimately show ?thesis by (simp add: getprop_def)
qed

text \<open>
  Claim C7, as stated, says that the first row is removed if and only if it repeats the
  header labels. The handler looks at one cell only: a first row whose \<^verbatim>\<open>User Name\<close>
  cell reads \<^verbatim>\<open>User Name\<close> is removed although its badge count is \<^verbatim>\<open>5\<close>, which is
  not the label of that column.
\<close>

theorem strip_header_counterexample:
  "strip_header [[(''User Name'', ''User Name''), (''# of Skill Badges Completed'', ''5'')], row_al]
     = [row_al]
   \<and> \<not> repeats_header_labels [(''User Name'', ''User Name''), (''# of Skill Badges Completed'', ''5'')]"
  by (simp add: strip_header_def getprop_def repeats_header_labels_def)

text \<open>
  Claim C7, amended. The first parsed row is removed before processing if and only if
  its \<^verbatim>\<open>User Name\<close> field is exactly \<^verbatim>\<open>User Name\<close>. So a first row that repeats the
  header labels of a file with a \<^verbatim>\<open>User Name\<close> column is removed, and a first row whose
  \<^verbatim>\<open>User Name\<close> field is anything else is kept.
\<close>

theorem strip_header_rule:
  "strip_header [] = []
   \<and> strip_header (item # rest) =
       (if getprop item ''User Name'' = Some ''User Name'' then rest else item # rest)
   \<and> (repeats_header_labels item \<and> ''User Name'' \<in> fst ` set item
        \<longrightarrow> strip_header (item # rest) = rest)
   \<and> (getprop item ''User Name'' \<noteq> Some ''User Name'' \<longrightarrow> strip_header (item # rest) = item # rest)"
  by (simp add: strip_header_def getprop_header)

theorem strip_header_rule_witness:
  "repeats_header_labels row_header \<and> ''User Name'' \<in> fst ` set row_header
   \<and> strip_header [row_header, row_al] = [row_al]
   \<and> getprop row_al ''User Name'' \<noteq> Some ''User Name''
   \<and> strip_header [row_al, row_bob] = [row_al, row_bob]"
proof -
  have a: "repeats_header_labels row_header \<and> ''User Name'' \<in> fst ` set row_header"
    by (simp add: repeats_header_labels_def row_header_def)
  have b: "getprop row_al ''User Name'' \<noteq> Some ''User Name''"
    by (simp add: getprop_def row_al_def)
  from strip_header_rule [of row_header "[row_al]"] a
  have 1: "strip_header [row_header, row_al] = [row_al]" by blast
  from strip_header_rule [of row_al "[row_bob]"] b
  have 2: "strip_header [row_al, row_bob] = [row_al, row_bob]" by blast
  from a b 1 2 show ?thesis by blast
qed

section \<open>Sorting\<close>

subsection \<open>Stable insertion\<close>

lemma mset_insort_cmp: "mset (insort_cmp cmp x ys) = add_mset x (mset ys)"
  by (induction ys) simp_all

lemma set_insort_cmp: "set (insort_cmp cmp x ys) = insert x (set ys)"
  by (induction ys) auto

lemma mset_Array_sort: "mset (Array_sort cmp xs) = mset xs"
  unfolding Array_sort_def by (induction xs) (simp_all add: mset_insort_cmp)

lemma length_Array_sort: "length (Array_sort cmp xs) = length xs"
  using mset_Array_sort [of cmp xs] by (metis size_mset)

lemma sorted_insort_cmp:
  assumes total: "\<And>a b. cmp a b \<le> 0 \<or> cmp b a \<le> 0"
    and trans: "\<And>a b c. cmp a b \<le> 0 \<Longrightarrow> cmp b c \<le> 0 \<Longrightarrow> cmp a c \<le> 0"
    and "sorted_wrt (\<lambda>a b. cmp a b \<le> 0) ys"
  shows "sorted_wrt (\<lambda>a b. cmp a b \<le> 0) (insort_cmp cmp x ys)"
  using assms(3)
proof (induction ys)
  case Nil
  show ?case by simp
next
  case (Cons y ys)
  show ?case
  proof (cases "cmp x y \<le> 0")
    case True
    with Cons.prems trans [of x y] show ?thesis by auto
  next
    case False
    with total [of x y] have "cmp y x \<le> 0" by simp
    with False Cons show ?thesis by (auto simp: set_insort_cmp)
  qed
qed

lemma sorted_Array_sort:
  assumes "\<And>a b. cmp a b \<le> 0 \<or> cmp b a \<le> 0"
    and "\<And>a b c. cmp a b \<le> 0 \<Longrightarrow> cmp b c \<le> 0 \<Longrightarrow> cmp a c \<le> 0"
  shows "sorted_wrt (\<lambda>a b. cmp a b \<le> 0) (Array_sort cmp xs)"
  unfolding Array_sort_def
  by (induction xs) (simp_all add: sorted_insort_cmp [OF assms])

lemma filter_insort_cmp_neg: "\<not> P x \<Longrightarrow> filter P (insort_cmp cmp x ys) = filter P ys"
  by (induction ys) simp_all

lemma filter_insort_cmp_pos:
  assumes "P x" and "\<And>y. 0 < cmp x y \<Longrightarrow> \<not> P y"
  shows "filter P (insort_cmp cmp x ys) = x # filter P ys"
proof (induction ys)
  case Nil
  from assms(1) show ?case by simp
next
  case (Cons y ys)
  show ?case
  proof (cases "cmp x y \<le> 0")
    case True
    with assms(1) show ?thesis by simp
  next
    case False
    then have "\<not> P y" using assms(2) [of y] by simp
    with False Cons.IH show ?thesis by simp
  qed
qed

lemma Array_sort_stable:
  assumes "\<And>x y. cmp e x = 0 \<Longrightarrow> 0 < cmp x y \<Longrightarrow> cmp e y \<noteq> 0"
  shows "filter (\<lambda>x. cmp e x = 0) (Array_sort cmp xs) = filter (\<lambda>x. cmp e x = 0) xs"
  unfolding Array_sort_def
proof (induction xs)
  case Nil
  show ?case by simp
next
  case (Cons x xs)
  show ?case
  proof (cases "cmp e x = 0")
    case True
    have "filter (\<lambda>x. cmp e x = 0) (insort_cmp cmp x (foldr (insort_cmp cmp) xs []))
          = x # filter (\<lambda>x. cmp e x = 0) (foldr (insort_cmp cmp) xs [])"
      using True assms by (intro filter_insort_cmp_pos) auto
    with True Cons.IH show ?thesis by simp
  next
    case False
    with Cons.IH show ?thesis by (simp add: filter_insort_cmp_neg)
  qed
qed

lemma stable_sorted_unique:
  assumes refl: "\<And>a. cmp a a = 0"
    and antisym: "\<And>a b. cmp a b \<le> 0 \<Longrightarrow> cmp b a \<le> 0 \<Longrightarrow> cmp a b = 0"
    and "sorted_wrt (\<lambda>a b. cmp a b \<le> 0) ys"
    and "sorted_wrt (\<lambda>a b. cmp a b \<le> 0) zs"
    and "\<And>e. filter (\<lambda>x. cmp e x = 0) ys = filter (\<lambda>x. cmp e x = 0) zs"
  shows "ys = zs"
  using assms(3-5)
proof (induction ys arbitrary: zs)
  case Nil
  show ?case
  proof (cases zs)
    case (Cons z zs')
    with Nil.prems(3) [of z] refl [of z] show ?thesis by simp
  qed simp
next
  case (Cons y ys)
  show ?case
  proof (cases zs)
    case Nil
    with Cons.prems(3) [of y] refl [of y] show ?thesis by simp
  next
    case zs: (Cons z zs')
    have "y \<in> set (filter (\<lambda>x. cmp y x = 0) (y # ys))" using refl [of y] by simp
    then have "y \<in> set (filter (\<lambda>x. cmp y x = 0) zs)" by (simp only: Cons.prems(3))
    then have "y \<in> set zs" by (simp only: set_filter mem_Collect_eq)
    then have y_in: "y \<in> set (z # zs')" by (simp only: zs)
    have "z \<in> set (filter (\<lambda>x. cmp z x = 0) zs)" using refl [of z] zs by simp
    then have "z \<in> set (filter (\<lambda>x. cmp z x = 0) (y # ys))" by (simp only: Cons.prems(3))
    then have z_in: "z \<in> set (y # ys)" by (simp only: set_filter mem_Collect_eq)
    have "y = z"
    proof (rule ccontr)
      assume neq: "y \<noteq> z"
      with y_in Cons.prems(2) zs have "cmp z y \<le> 0" by auto
      moreover from neq z_in Cons.prems(1) have "cmp y z \<le> 0" by auto
      ultimately have "cmp y z = 0" by (intro antisym)
      with Cons.prems(3) [of y] zs refl [of y] show False using neq by simp
    qed
    moreover have "ys = zs'"
    proof (rule Cons.IH)
      from Cons.prems(1) show "sorted_wrt (\<lambda>a b. cmp a b \<le> 0) ys" by simp
      from Cons.prems(2) zs show "sorted_wrt (\<lambda>a b. cmp a b \<le> 0) zs'" by simp
      show "filter (\<lambda>x. cmp e x = 0) ys = filter (\<lambda>x. cmp e x = 0) zs'" for e
        using Cons.prems(3) [of e] zs \<open>y = z\<close> by (simp split: if_splits)
    qed
    ultimately show ?thesis using zs by simp
  qed
qed

lemma Array_sort_unique:
  assumes "\<And>a. cmp a a = 0"
    and "\<And>a b. cmp a b \<le> 0 \<or> cmp b a \<le> 0"
    and "\<And>a b. cmp a b \<le> 0 \<Longrightarrow> cmp b a \<le> 0 \<Longrightarrow> cmp a b = 0"
    and "\<And>a b c. cmp a b \<le> 0 \<Longrightarrow> cmp b c \<le> 0 \<Longrightarrow> cmp a c \<le> 0"
    and "\<And>a b c. cmp a b = 0 \<Longrightarrow> 0 < cmp b c \<Longrightarrow> cmp a c \<noteq> 0"
    and "sorted_wrt (\<lambda>a b. cmp a b \<le> 0) ys"
    and "\<And>e. filter (\<lambda>x. cmp e x = 0) ys = filter (\<lambda>x. cmp e x = 0) xs"
  shows "ys = Array_sort cmp xs"
proof (rule stable_sorted_unique [of cmp])
  show "cmp a a = 0" for a by (rule assms(1))
  show "cmp a b = 0" if "cmp a b \<le> 0" "cmp b a \<le> 0" for a b using that by (rule assms(3))
  show "sorted_wrt (\<lambda>a b. cmp a b \<le> 0) ys" by (rule assms(6))
  show "sorted_wrt (\<lambda>a b. cmp a b \<le> 0) (Array_sort cmp xs)"
    by (rule sorted_Array_sort) (rule assms(2), erule (1) assms(4))
  show "filter (\<lambda>x. cmp e x = 0) ys = filter (\<lambda>x. cmp e x = 0) (Array_sort cmp xs)" for e
    using assms(7) [of e] Array_sort_stable [of cmp e xs] assms(5) by simp
qed

subsection \<open>The comparator\<close>

lemma str_or_Some_empty: "str_or (Some s) '''' = s"
  by (simp add: str_or_def)

lemma compareEntries_le_iff:
  "compareEntries lc a b \<le> 0 \<longleftrightarrow>
     (redemptionStatus a \<and> \<not> redemptionStatus b) \<or>
     (redemptionStatus a = redemptionStatus b \<and>
       (skillBadges b < skillBadges a \<or>
        (skillBadges a = skillBadges b \<and>
          (arcadePoints b < arcadePoints a \<or>
           (arcadePoints a = arcadePoints b \<and> lc (name a) (name b) \<le> 0)))))"
  by (auto simp: compareEntries_def str_or_Some_empty)

lemma compareEntries_eq_iff:
  "compareEntries lc a b = 0 \<longleftrightarrow>
     redemptionStatus a = redemptionStatus b \<and> skillBadges a = skillBadges b \<and>
     arcadePoints a = arcadePoints b \<and> lc (name a) (name b) = 0"
  by (auto simp: compareEntries_def str_or_Some_empty)

lemma compareEntries_gr_iff:
  "0 < compareEntries lc a b \<longleftrightarrow>
     (redemptionStatus b \<and> \<not> redemptionStatus a) \<or>
     (redemptionStatus a = redemptionStatus b \<and>
       (skillBadges a < skillBadges b \<or>
        (skillBadges a = skillBadges b \<and>
          (arcadePoints a < arcadePoints b \<or>
           (arcadePoints a = arcadePoints b \<and> 0 < lc (name a) (name b))))))"
  by (auto simp: compareEntries_def str_or_Some_empty)

lemma compareEntries_total:
  assumes "\<forall>a b. lc a b \<le> 0 \<or> lc b a \<le> 0"
  shows "compareEntries lc a b \<le> 0 \<or> compareEntries lc b a \<le> 0"
  unfolding compareEntries_le_iff using assms [rule_format, of "name a" "name b"] by auto

lemma compareEntries_trans:
  assumes "\<forall>a b c. lc a b \<le> 0 \<and> lc b c \<le> 0 \<longrightarrow> lc a c \<le> 0"
    and "compareEntries lc a b \<le> 0" and "compareEntries lc b c \<le> 0"
  shows "compareEntries lc a c \<le> 0"
  using assms(2,3) assms(1) [rule_format, of "name a" "name b" "name c"]
  unfolding compareEntries_le_iff by auto

lemma compareEntries_in_order: "compareEntries lc a b \<le> 0 \<Longrightarrow> in_order lc a b"
  unfolding compareEntries_le_iff in_order_def by auto

lemma compareEntries_ties:
  assumes "\<forall>a b c. lc a b = 0 \<and> 0 < lc b c \<longrightarrow> 0 < lc a c"
    and "compareEntries lc e x = 0" and "0 < compareEntries lc x y"
  shows "compareEntries lc e y \<noteq> 0"
  using assms(2,3) assms(1) [rule_format, of "name e" "name x" "name y"]
  unfolding compareEntries_eq_iff compareEntries_gr_iff by auto

lemma codepoint_compare_total: "\<forall>a b. codepoint_compare a b \<le> 0 \<or> codepoint_compare b a \<le> 0"
  by (auto simp: codepoint_compare_def)

lemma codepoint_compare_trans:
  "\<forall>a b c. codepoint_compare a b \<le> 0 \<and> codepoint_compare b c \<le> 0 \<longrightarrow> codepoint_compare a c \<le> 0"
  by (auto simp: codepoint_compare_def split: if_splits)

lemma caseless_compare_ties:
  "\<forall>a b c. caseless_compare a b = 0 \<and> 0 < caseless_compare b c \<longrightarrow> 0 < caseless_compare a c"
  by (auto simp: caseless_compare_def codepoint_compare_def split: if_splits)

subsection \<open>The order of the sorted entries\<close>

text \<open>
  Claim C1. The handler sorts the processed entries so that, for every pair of
  positions \<open>i < j\<close>, the entry at \<open>i\<close> and the entry at \<open>j\<close> are in the order of the
  specification: a redeemed entry stands before a non-redeemed one; with equal
  \<open>redemptionStatus\<close> the greater \<open>skillBadges\<close> comes first; with equal \<open>skillBadges\<close> too,
  the greater \<open>arcadePoints\<close> comes first; and with all three equal the names are in
  ascending order of \<^verbatim>\<open>localeCompare\<close>. The sorted array holds the processed entries,
  each as often as before. The comparison \<open>lc\<close> of the runtime is taken to be a total
  preorder, as the collation of any locale is.
\<close>

theorem sort_order:
  assumes "\<forall>a b. lc a b \<le> 0 \<or> lc b a \<le> 0"
    and "\<forall>a b c. lc a b \<le> 0 \<and> lc b c \<le> 0 \<longrightarrow> lc a c \<le> 0"
  shows "mset (processedData lc rows) = mset (map process_item (strip_header rows))
    \<and> (\<forall>i j. i < j \<and> j < length (processedData lc rows)
          \<longrightarrow> in_order lc (processedData lc rows ! i) (processedData lc rows ! j))"
proof -
  have "sorted_wrt (\<lambda>a b. compareEntries lc a b \<le> 0) (processedData lc rows)"
    unfolding processedData_def
  proof (rule sorted_Array_sort)
    show "compareEntries lc a b \<le> 0 \<or> compareEntries lc b a \<le> 0" for a b
      by (rule compareEntries_total [OF assms(1)])
    show "compareEntries lc a c \<le> 0"
      if "compareEntries lc a b \<le> 0" and "compareEntries lc b c \<le> 0" for a b c
      using that by (rule compareEntries_trans [OF assms(2)])
  qed
  then have "\<forall>i j. i < j \<and> j < length (processedData lc rows)
          \<longrightarrow> in_order lc (processedData lc rows ! i) (processedData lc rows ! j)"
    by (auto simp: sorted_wrt_iff_nth_less intro: compareEntries_in_order)
  then show ?thesis by (simp add: processedData_def mset_Array_sort)
qed

theorem sort_order_witness:
  "map name (processedData codepoint_compare [row_header, row_al, row_cy, row_bob]) = [''Bob'', ''Cy'', ''Al'']
   \<and> in_order codepoint_compare
        (processedData codepoint_compare [row_header, row_al, row_cy, row_bob] ! 0)
        (processedData codepoint_compare [row_header, row_al, row_cy, row_bob] ! 1)
   \<and> in_order codepoint_compare
        (processedData codepoint_compare [row_header, row_al, row_cy, row_bob] ! 1)
        (processedData codepoint_compare [row_header, row_al, row_cy, row_bob] ! 2)"
proof -
  let ?out = "processedData codepoint_compare [row_header, row_al, row_cy, row_bob]"
  have names: "map name ?out = [''Bob'', ''Cy'', ''Al'']" by code_simp
  then have len: "length ?out = 3" by (metis length_map length_Cons list.size(3) numeral_3_eq_3)
  from sort_order [OF codepoint_compare_total codepoint_compare_trans,
      of "[row_header, row_al, row_cy, row_bob]"]
  have ord: "\<And>i j. i < j \<Longrightarrow> j < length ?out \<Longrightarrow> in_order codepoint_compare (?out ! i) (?out ! j)"
    by blast
  have "in_order codepoint_compare (?out ! 0) (?out ! 1)" by (rule ord) (simp_all add: len)
  moreover have "in_order codepoint_compare (?out ! 1) (?out ! 2)" by (rule ord) (simp_all add: len)
  ultimately show ?thesis using names by blast
qed

subsection \<open>Stability\<close>

text \<open>
  Claim C9. The sort is stable: the entries on which the comparator returns 0 against
  any given entry \<open>e\<close> (same \<open>redemptionStatus\<close>, \<open>skillBadges\<close> and \<open>arcadePoints\<close>, names
  comparing equal) stand in the output in the order they had in the input. The
  comparison \<open>lc\<close> is taken to treat strings that compare equal alike: if \<open>a\<close> ties with
  \<open>b\<close> and \<open>b\<close> sorts after \<open>c\<close>, then \<open>a\<close> sorts after \<open>c\<close>.
\<close>

theorem sort_stable:
  assumes "\<forall>a b c. lc a b = 0 \<and> 0 < lc b c \<longrightarrow> 0 < lc a c"
  shows "filter (\<lambda>x. compareEntries lc e x = 0) (processedData lc rows)
       = filter (\<lambda>x. compareEntries lc e x = 0) (map process_item (strip_header rows))"
  unfolding processedData_def
  by (rule Array_sort_stable) (rule compareEntries_ties [OF assms])

theorem sort_stable_witness:
  "map name (filter (\<lambda>x. compareEntries caseless_compare (process_item row_bob) x = 0)
                    (processedData caseless_compare [row_bob_upper, row_al, row_bob]))
     = [''BOB'', ''Bob'']"
proof -
  have "map name (filter (\<lambda>x. compareEntries caseless_compare (process_item row_bob) x = 0)
                    (map process_item (strip_header [row_bob_upper, row_al, row_bob])))
     = [''BOB'', ''Bob'']" by code_simp
  with sort_stable [OF caseless_compare_ties, of "process_item row_bob" "[row_bob_upper, row_al, row_bob]"]
  show ?thesis by simp
qed

section \<open>Ranks\<close>

lemma length_add_rank: "length (add_rank xs) = length xs"
  by (simp add: add_rank_def)

lemma add_rank_nth:
  "i < length xs \<Longrightarrow> add_rank xs ! i = (xs ! i)\<lparr>rank := Some (int i + 1)\<rparr>"
  by (simp add: add_rank_def)

lemma map_rank_add_rank:
  "map rank (add_rank xs) = map (\<lambda>i. Some (int i + 1)) [0 ..< length xs]"
  by (rule nth_equalityI) (simp_all add: length_add_rank add_rank_nth)

lemma rank_add_rank: "e \<in> set (add_rank xs) \<Longrightarrow> rank e \<noteq> None"
  by (auto simp: add_rank_def)

lemma upt_shift: "[Suc r ..< Suc r + Suc n] = Suc r # [Suc (Suc r) ..< Suc (Suc r) + n]"
  by (simp add: upt_conv_Cons del: upt_Suc)

lemma dense_from_consecutive:
  "dense_from cmp r prev xs = [Suc r ..< Suc r + length xs]
     \<longleftrightarrow> successively (\<lambda>a b. cmp a b \<noteq> 0) (prev # xs)"
proof (induction xs arbitrary: r prev)
  case Nil
  show ?case by simp
next
  case (Cons x xs)
  have shape: "[Suc r ..< Suc r + length (x # xs)]
                 = Suc r # [Suc (Suc r) ..< Suc (Suc r) + length xs]"
    using upt_shift [of r "length xs"] by simp
  show ?case
  proof (cases "cmp prev x = 0")
    case True
    then show ?thesis unfolding shape by simp
  next
    case False
    with Cons.IH [of "Suc r" x] show ?thesis unfolding shape by simp
  qed
qed

lemma dense_ranks_consecutive:
  "dense_ranks cmp xs = [1 ..< Suc (length xs)] \<longleftrightarrow> successively (\<lambda>a b. cmp a b \<noteq> 0) xs"
proof (cases xs)
  case Nil
  then show ?thesis by simp
next
  case (Cons x xs')
  have "[1 ..< Suc (length (x # xs'))] = 1 # [Suc 1 ..< Suc 1 + length xs']"
    by (simp add: upt_conv_Cons del: upt_Suc)
  then have "dense_ranks cmp (x # xs') = [1 ..< Suc (length (x # xs'))]
        \<longleftrightarrow> dense_from cmp 1 x xs' = [Suc 1 ..< Suc 1 + length xs']"
    by (simp del: upt_Suc)
  with Cons show ?thesis by (simp only: dense_from_consecutive)
qed

lemma positions_as_nats:
  "map (\<lambda>i. Some (int i + 1)) [0 ..< n] = map (\<lambda>r. Some (int r)) [1 ..< Suc n]"
proof -
  have "[1 ..< Suc n] = map Suc [0 ..< n]" by (simp only: map_Suc_upt One_nat_def)
  then show ?thesis by (simp add: o_def add.commute del: upt_Suc)
qed

lemma inj_Some_int: "inj (\<lambda>r::nat. Some (int r))"
  by (simp add: inj_def)

text \<open>
  Claim C4, as stated, says that the ranks are the positions \<open>1, 2, ..., n\<close> and that
  this realises dense ranking. Under dense ranking entries that tie share a rank. The
  handler numbers positions: two rows with the same name and the same counts tie under
  the comparator and receive the ranks 1 and 2, where dense ranking gives both rank 1.
\<close>

theorem rank_is_position_counterexample:
  "map rank (rankedData codepoint_compare [row_bob, row_bob]) = [Some 1, Some 2]
   \<and> dense_ranks (compareEntries codepoint_compare) (processedData codepoint_compare [row_bob, row_bob])
       = [1, 1]"
  by code_simp

text \<open>
  Claim C4, amended. After sorting, the entry at every position \<open>i\<close> (0-based) of the
  returned data array is the sorted entry at \<open>i\<close> with rank \<open>i + 1\<close>, so the ranks are
  exactly \<open>1, 2, ..., n\<close> in array order for a data array of \<open>n\<close> entries, one for every
  row kept. This positional ranking is the dense ranking exactly when no two
  neighbouring entries of the sorted array tie under the comparator.
\<close>

theorem rank_is_position:
  "length (rankedData lc rows) = length (strip_header rows)
   \<and> (\<forall>i < length (rankedData lc rows).
         rankedData lc rows ! i = (processedData lc rows ! i)\<lparr>rank := Some (int i + 1)\<rparr>)
   \<and> map rank (rankedData lc rows) = map (\<lambda>i. Some (int i + 1)) [0 ..< length (rankedData lc rows)]
   \<and> (map rank (rankedData lc rows)
         = map (\<lambda>r. Some (int r)) (dense_ranks (compareEntries lc) (processedData lc rows))
       \<longleftrightarrow> successively (\<lambda>a b. compareEntries lc a b \<noteq> 0) (processedData lc rows))"
proof (intro conjI)
  show "length (rankedData lc rows) = length (strip_header rows)"
    by (simp add: rankedData_def processedData_def length_add_rank length_Array_sort)
  show "\<forall>i < length (rankedData lc rows).
         rankedData lc rows ! i = (processedData lc rows ! i)\<lparr>rank := Some (int i + 1)\<rparr>"
    by (simp add: rankedData_def length_add_rank add_rank_nth)
  show "map rank (rankedData lc rows) = map (\<lambda>i. Some (int i + 1)) [0 ..< length (rankedData lc rows)]"
    by (simp add: rankedData_def length_add_rank map_rank_add_rank)
  have "map rank (rankedData lc rows)
          = map (\<lambda>r. Some (int r)) [1 ..< Suc (length (processedData lc rows))]"
    by (simp only: rankedData_def map_rank_add_rank positions_as_nats)
  then show "map rank (rankedData lc rows)
         = map (\<lambda>r. Some (int r)) (dense_ranks (compareEntries lc) (processedData lc rows))
       \<longleftrightarrow> successively (\<lambda>a b. compareEntries lc a b \<noteq> 0) (processedData lc rows)"
    by (simp only: inj_map_eq_map [OF inj_Some_int] dense_ranks_consecutive [symmetric]) auto
qed

theorem rank_is_position_witness:
  "1 < length (rankedData codepoint_compare [row_header, row_al, row_cy, row_bob])
   \<and> rank (rankedData codepoint_compare [row_header, row_al, row_cy, row_bob] ! 1) = Some 2
   \<and> name (rankedData codepoint_compare [row_header, row_al, row_cy, row_bob] ! 1) = ''Cy''"
proof -
  let ?rows = "[row_header, row_al, row_cy, row_bob]"
  have "length (strip_header ?rows) = 3" by code_simp
  with rank_is_position [of codepoint_compare ?rows]
  have len: "1 < length (rankedData codepoint_compare ?rows)" by simp
  with rank_is_position [of codepoint_compare ?rows]
  have "rankedData codepoint_compare ?rows ! 1
          = (processedData codepoint_compare ?rows ! 1)\<lparr>rank := Some (int 1 + 1)\<rparr>" by blast
  moreover have "name (processedData codepoint_compare ?rows ! 1) = ''Cy''" by code_simp
  ultimately show ?thesis using len by simp
qed

section \<open>The response\<close>

subsection \<open>Failures\<close>



subsection \<open>The payload on success\<close>

lemma object_keys_entry_json:
  "rank e \<noteq> None \<Longrightarrow>
   object_keys (entry_json e) =
     [''name'', ''redemptionStatus'', ''skillBadges'', ''arcadePoints'', ''progress'',
      ''skillBadgesStr'', ''arcadePointsStr'', ''rank'']"
  by (auto simp: object_keys_def entry_json_def)

lemma GET_success:
  assumes "existsSync env" and "readStream env = Inr rows" and "statSync_mtime env = Inr t"
  shows "GET lc env = success_response t (rankedData lc rows)"
  using assms by (simp add: GET_def read_csv_def Let_def)

lemma response_data_success:
  "response_data (body (success_response t ranked)) = map entry_json ranked"
  by (simp add: response_data_def success_response_def)

text \<open>
  Claim C8, as stated, says that every element of \<open>data\<close> has exactly the six fields
  \<open>name\<close>, \<open>redemptionStatus\<close>, \<open>skillBadges\<close>, \<open>arcadePoints\<close>, \<open>progress\<close> and \<open>rank\<close>. The
  spread \<^verbatim>\<open>...student\<close> copies every property of the entry, and the entry also has
  \<open>skillBadgesStr\<close> and \<open>arcadePointsStr\<close>: the first element of the answer to a file of
  three rows has eight fields.
\<close>

theorem success_payload_counterexample:
  "object_keys (hd (response_data (body (GET codepoint_compare env_ok)))) =
     [''name'', ''redemptionStatus'', ''skillBadges'', ''arcadePoints'', ''progress'',
      ''skillBadgesStr'', ''arcadePointsStr'', ''rank'']
   \<and> object_keys (hd (response_data (body (GET codepoint_compare env_ok)))) \<noteq>
     [''name'', ''redemptionStatus'', ''skillBadges'', ''arcadePoints'', ''progress'', ''rank'']"
  by code_simp

text \<open>
  Claim C8, amended. On success the handler answers with status 200 and a payload of
  the fields \<open>success\<close>, \<open>message\<close>, \<open>updatedAt\<close> and \<open>data\<close>, where \<open>data\<close> holds the ranked
  entries and every element of it has exactly the eight fields \<open>name\<close>,
  \<open>redemptionStatus\<close>, \<open>skillBadges\<close>, \<open>arcadePoints\<close>, \<open>progress\<close>, \<open>skillBadgesStr\<close>,
  \<open>arcadePointsStr\<close> and \<open>rank\<close>.
\<close>

theorem success_payload:
  "existsSync env \<and> readStream env = Inr rows \<and> statSync_mtime env = Inr t \<longrightarrow>
     status (GET lc env) = 200
     \<and> object_keys (body (GET lc env)) = [''success'', ''message'', ''updatedAt'', ''data'']
     \<and> response_data (body (GET lc env)) = map entry_json (rankedData lc rows)
     \<and> (\<forall>d \<in> set (response_data (body (GET lc env))).
           object_keys d =
             [''name'', ''redemptionStatus'', ''skillBadges'', ''arcadePoints'', ''progress'',
              ''skillBadgesStr'', ''arcadePointsStr'', ''rank''])"
proof (intro impI, elim conjE)
  assume ok: "existsSync env" "readStream env = Inr rows" "statSync_mtime env = Inr t"
  have G: "GET lc env = success_response t (rankedData lc rows)"
    by (rule GET_success [OF ok])
  have "\<forall>e \<in> set (rankedData lc rows). rank e \<noteq> None"
    by (simp add: rankedData_def rank_add_rank)
  then have "\<forall>d \<in> set (map entry_json (rankedData lc rows)).
           object_keys d =
             [''name'', ''redemptionStatus'', ''skillBadges'', ''arcadePoints'', ''progress'',
              ''skillBadgesStr'', ''arcadePointsStr'', ''rank'']"
    by (auto simp: object_keys_entry_json)
  then show "status (GET lc env) = 200
     \<and> object_keys (body (GET lc env)) = [''success'', ''message'', ''updatedAt'', ''data'']
     \<and> response_data (body (GET lc env)) = map entry_json (rankedData lc rows)
     \<and> (\<forall>d \<in> set (response_data (body (GET lc env))).
           object_keys d =
             [''name'', ''redemptionStatus'', ''skillBadges'', ''arcadePoints'', ''progress'',
              ''skillBadgesStr'', ''arcadePointsStr'', ''rank''])"
    unfolding G response_data_success
    by (simp add: success_response_def object_keys_def)
qed

theorem success_payload_witness:
  "existsSync env_ok \<and> readStream env_ok = Inr [row_header, row_al, row_cy, row_bob]
   \<and> statSync_mtime env_ok = Inr ''2024-05-01T10:00:00.000Z''
   \<and> status (GET codepoint_compare env_ok) = 200
   \<and> object_keys (body (GET codepoint_compare env_ok)) = [''success'', ''message'', ''updatedAt'', ''data'']"
proof -
  have h: "existsSync env_ok \<and> readStream env_ok = Inr [row_header, row_al, row_cy, row_bob]
     \<and> statSync_mtime env_ok = Inr ''2024-05-01T10:00:00.000Z''"
    by (simp add: env_ok_def)
  from success_payload [where env = env_ok and lc = codepoint_compare
      and rows = "[row_header, row_al, row_cy, row_bob]" and t = "''2024-05-01T10:00:00.000Z''"] h
  show ?thesis by blast
qed

end
